theory Spec2Isabelle
  imports Main "HOL-Library.Finite_Map"
begin

section \<open>Python objects reachable from a cached result\<close>

text \<open>
  The cache of \<^verbatim>\<open>hijack/cache_manager.py\<close> stores references to objects that other code
  keeps mutating (tensors are released, state dicts shrink). A reference is an address, the
  objects live in a heap, and every operation of the cache reads the heap it is called in.
  The cache itself never writes to the heap: logging, \<^verbatim>\<open>gc.collect()\<close> and
  \<^verbatim>\<open>torch.cuda.empty_cache()\<close> do not touch the fields of the store and are left out.
\<close>

type_synonym addr = nat

text \<open>A dict, as far as the cache looks at it: finitely many keys, each bound to a reference.\<close>

type_synonym pydict = "(string, addr) fmap"

datatype pyobj =
    Module pydict      \<comment> \<open>a \<^verbatim>\<open>torch.nn.Module\<close>; the argument is what \<^verbatim>\<open>state_dict()\<close> returns\<close>
  | Dict pydict        \<comment> \<open>a \<^verbatim>\<open>dict\<close>\<close>
  | Tuple "addr list"  \<comment> \<open>a \<^verbatim>\<open>tuple\<close> of references\<close>
  | Other              \<comment> \<open>any other object (an int, a str, a list, ...)\<close>

type_synonym heap = "addr \<Rightarrow> pyobj"

text \<open>\<^verbatim>\<open>len(d.keys())\<close>\<close>

definition py_len :: "pydict \<Rightarrow> int" where
  "py_len d = int (fcard (fmdom d))"

datatype error = IndexError | KeyError | ValueError

section \<open>ModelValidChecker\<close>

record ModelValidChecker =
  result :: addr
  module :: addr
  key_count :: int

text \<open>
  \<^verbatim>\<open>get_latest_key_count\<close> reads \<^verbatim>\<open>self.module\<close> only, and is called from
  \<^verbatim>\<open>__init__\<close> before \<^verbatim>\<open>self.key_count\<close> exists: it takes the module's address.
\<close>

definition get_latest_key_count :: "heap \<Rightarrow> addr \<Rightarrow> int" where
  "get_latest_key_count h m =
     (case h m of
        Module sd \<Rightarrow> py_len sd
      | Dict d \<Rightarrow> py_len d
      | _ \<Rightarrow> - 1)"

text \<open>
  \<^verbatim>\<open>result[0] if isinstance(result, tuple) else result\<close>: indexing the empty tuple
  raises IndexError.
\<close>

definition module_of :: "heap \<Rightarrow> addr \<Rightarrow> error + addr" where
  "module_of h res =
     (case h res of
        Tuple ms \<Rightarrow> (case ms of [] \<Rightarrow> Inl IndexError | m # _ \<Rightarrow> Inr m)
      | _ \<Rightarrow> Inr res)"

text \<open>\<^verbatim>\<open>__init__\<close>: the three assignments, in the source's order.\<close>

definition ModelValidChecker_init :: "heap \<Rightarrow> addr \<Rightarrow> error + ModelValidChecker" where
  "ModelValidChecker_init h res =
     (case module_of h res of
        Inl e \<Rightarrow> Inl e
      | Inr m \<Rightarrow> Inr \<lparr>result = res, module = m, key_count = get_latest_key_count h m\<rparr>)"

definition is_valid :: "heap \<Rightarrow> ModelValidChecker \<Rightarrow> bool" where
  "is_valid h c = (if key_count c = get_latest_key_count h (module c) then True else False)"

definition checker_get_result :: "ModelValidChecker \<Rightarrow> addr" where
  "checker_get_result c = result c"

section \<open>ModelCache\<close>

definition CACHE_MAXSIZE :: int where
  "CACHE_MAXSIZE = 100"

record 'k ModelCache =
  valid_checker_map :: "'k \<rightharpoonup> ModelValidChecker"
  lru_cache :: "'k list"
  maxsize :: int

text \<open>
  \<^verbatim>\<open>__init__\<close> takes no argument; it reads the module-level constant when it runs. The value
  it reads is the parameter here, and \<open>ModelCache_new\<close> is the construction the program does.
\<close>

definition ModelCache_init :: "int \<Rightarrow> 'k ModelCache" where
  "ModelCache_init cache_maxsize =
     \<lparr>valid_checker_map = Map.empty, lru_cache = [], maxsize = cache_maxsize\<rparr>"

definition ModelCache_new :: "'k ModelCache" where
  "ModelCache_new = ModelCache_init CACHE_MAXSIZE"

text \<open>
  \<^verbatim>\<open>cached\<close>: a \<^verbatim>\<open>ModelValidChecker\<close> defines neither \<^verbatim>\<open>__bool__\<close> nor \<^verbatim>\<open>__len__\<close>, so
  \<^verbatim>\<open>if checker:\<close> is true exactly when the key was found. The store is returned as it was
  received: the method assigns to nothing.
\<close>

definition cached :: "heap \<Rightarrow> 'k ModelCache \<Rightarrow> 'k \<Rightarrow> bool \<times> 'k ModelCache" where
  "cached h s model_key =
     (case valid_checker_map s model_key of
        Some checker \<Rightarrow> (is_valid h checker, s)
      | None \<Rightarrow> (False, s))"

text \<open>
  \<^verbatim>\<open>register_model\<close>. An exception leaves the store as it was when it was raised, so the
  outcome comes with the store. \<open>evict\<close> is the body of the \<^verbatim>\<open>if\<close> (lines 76 and 77):
  \<^verbatim>\<open>pop(0)\<close> of an empty list raises IndexError, and \<^verbatim>\<open>del\<close> of a missing key raises
  KeyError once the list has been popped. \<open>store_model\<close> is the rest (lines 81 to 84): the
  checker's constructor may raise, after the eviction; \<^verbatim>\<open>list.remove\<close> takes out the first
  occurrence.
\<close>

definition evict :: "'k ModelCache \<Rightarrow> (error + unit) \<times> 'k ModelCache" where
  "evict s =
     (case lru_cache s of
        [] \<Rightarrow> (Inl IndexError, s)
      | del_key # rest \<Rightarrow>
          (let s1 = s\<lparr>lru_cache := rest\<rparr> in
           if valid_checker_map s1 del_key = None then (Inl KeyError, s1)
           else (Inr (), s1\<lparr>valid_checker_map := (valid_checker_map s1)(del_key := None)\<rparr>)))"

definition store_model :: "heap \<Rightarrow> 'k ModelCache \<Rightarrow> 'k \<Rightarrow> addr \<Rightarrow> (error + unit) \<times> 'k ModelCache" where
  "store_model h s model_key res =
     (case ModelValidChecker_init h res of
        Inl e \<Rightarrow> (Inl e, s)
      | Inr checker \<Rightarrow>
          (let s1 = s\<lparr>valid_checker_map := (valid_checker_map s)(model_key \<mapsto> checker)\<rparr>;
               s2 = (if model_key \<in> set (lru_cache s1)
                     then s1\<lparr>lru_cache := remove1 model_key (lru_cache s1)\<rparr> else s1)
           in (Inr (), s2\<lparr>lru_cache := lru_cache s2 @ [model_key]\<rparr>)))"

definition register_model :: "heap \<Rightarrow> 'k ModelCache \<Rightarrow> 'k \<Rightarrow> addr \<Rightarrow> (error + unit) \<times> 'k ModelCache" where
  "register_model h s model_key res =
     (if int (length (lru_cache s)) \<ge> maxsize s
      then (case evict s of
              (Inl e, s1) \<Rightarrow> (Inl e, s1)
            | (Inr _, s1) \<Rightarrow> store_model h s1 model_key res)
      else store_model h s model_key res)"

text \<open>
  \<^verbatim>\<open>get_result\<close>: \<^verbatim>\<open>list.remove\<close> raises ValueError when the key is not in the list and
  leaves the list alone; the lookup in the dict comes after the list was reordered.
\<close>

definition get_result :: "'k ModelCache \<Rightarrow> 'k \<Rightarrow> (error + addr) \<times> 'k ModelCache" where
  "get_result s model_key =
     (if model_key \<notin> set (lru_cache s) then (Inl ValueError, s)
      else (let s1 = s\<lparr>lru_cache := remove1 model_key (lru_cache s) @ [model_key]\<rparr> in
            case valid_checker_map s1 model_key of
              None \<Rightarrow> (Inl KeyError, s1)
            | Some checker \<Rightarrow> (Inr (checker_get_result checker), s1)))"

section \<open>Runs of the store\<close>

datatype 'k call = IsCached 'k | Insert 'k addr | Retrieve 'k

text \<open>The store a call leaves behind, whether it returned or raised.\<close>

fun exec :: "heap \<Rightarrow> 'k ModelCache \<Rightarrow> 'k call \<Rightarrow> 'k ModelCache" where
  "exec h s (IsCached k) = snd (cached h s k)"
| "exec h s (Insert k res) = snd (register_model h s k res)"
| "exec h s (Retrieve k) = snd (get_result s k)"

text \<open>
  A run is a list of calls, each with the heap it is made in: between two calls the rest of
  the program may have changed any object.
\<close>

fun run :: "'k ModelCache \<Rightarrow> (heap \<times> 'k call) list \<Rightarrow> 'k ModelCache" where
  "run s [] = s"
| "run s ((h, c) # cs) = run (exec h s c) cs"

text \<open>The store's invariant: the list holds the dict's keys, once each, and no more than \<open>maxsize\<close>.\<close>

definition lru_inv :: "'k ModelCache \<Rightarrow> bool" where
  "lru_inv s =
     (set (lru_cache s) = dom (valid_checker_map s) \<and> distinct (lru_cache s) \<and>
      int (length (lru_cache s)) \<le> maxsize s)"

text \<open>A run of \<^verbatim>\<open>register_model\<close> calls only: each with its heap, its key and its result.\<close>

definition inserts :: "(heap \<times> 'k \<times> addr) list \<Rightarrow> (heap \<times> 'k call) list" where
  "inserts xs = map (\<lambda>(h, k, res). (h, Insert k res)) xs"

section \<open>Concrete heaps and stores\<close>

text \<open>
  A heap with one object of each kind: an int at 10, the dict \<^verbatim>\<open>{x, y}\<close> at 11, the dict
  \<^verbatim>\<open>{x}\<close> at 12, the tuple \<^verbatim>\<open>(dict at 11, int at 10)\<close> at 13, the empty tuple at 14 and
  a module with two parameters at 15. In \<open>heap1\<close> the dict at 11 has lost its key \<^verbatim>\<open>y\<close>.
\<close>

definition heap0 :: heap where
  "heap0 =
     (\<lambda>_. Other)
       (11 := Dict (fmap_of_list [(''x'', 20), (''y'', 21)]),
        12 := Dict (fmap_of_list [(''x'', 20)]),
        13 := Tuple [11, 10],
        14 := Tuple [],
        15 := Module (fmap_of_list [(''weight'', 22), (''bias'', 23)]))"

definition heap1 :: heap where
  "heap1 = heap0(11 := Dict (fmap_of_list [(''x'', 20)]))"

text \<open>The program's store after \<^verbatim>\<open>register_model(i, {x})\<close> for \<open>i = 0, ..., 99\<close>: it is full.\<close>

definition full_store :: "nat ModelCache" where
  "full_store = run ModelCache_new (inserts (map (\<lambda>i. (heap0, i, 12)) [0..<100]))"

text \<open>
  The scenario of the specification, with a capacity of two: \<^verbatim>\<open>A\<close> registered with the dict
  \<^verbatim>\<open>{x, y}\<close>, then \<^verbatim>\<open>B\<close> with the dict \<^verbatim>\<open>{x}\<close>.
\<close>

definition small_store :: "string ModelCache" where
  "small_store = run (ModelCache_init 2) (inserts [(heap0, ''A'', 11), (heap0, ''B'', 12)])"

section \<open>The invariant is kept by every call\<close>

lemma evict_nonempty:
  assumes "lru_inv s" "lru_cache s = k # rest"
  shows "evict s =
    (Inr (), s\<lparr>lru_cache := rest, valid_checker_map := (valid_checker_map s)(k := None)\<rparr>)"
proof -
  from assms have "k \<in> dom (valid_checker_map s)"
    unfolding lru_inv_def by (metis list.set_intros(1))
  then show ?thesis using assms(2) by (auto simp: evict_def Let_def)
qed

lemma evict_inv:
  assumes "lru_inv s"
  shows "lru_inv (snd (evict s))"
proof (cases "lru_cache s")
  case Nil
  then show ?thesis using assms by (simp add: evict_def)
next
  case (Cons k rest)
  have "set rest = dom (valid_checker_map s) - {k}"
    using assms Cons unfolding lru_inv_def by auto
  then show ?thesis
    using assms Cons evict_nonempty[OF assms Cons] unfolding lru_inv_def by auto
qed

lemma store_model_state:
  "ModelValidChecker_init h res = Inr c \<Longrightarrow>
   store_model h s k res =
     (Inr (), s\<lparr>valid_checker_map := (valid_checker_map s)(k \<mapsto> c),
                lru_cache := remove1 k (lru_cache s) @ [k]\<rparr>)"
  by (simp add: store_model_def Let_def remove1_idem)

lemma store_model_error:
  "ModelValidChecker_init h res = Inl e \<Longrightarrow> store_model h s k res = (Inl e, s)"
  by (simp add: store_model_def)

lemma store_model_maxsize: "maxsize (snd (store_model h s k res)) = maxsize s"
  by (cases "ModelValidChecker_init h res") (simp_all add: store_model_state store_model_error)

lemma store_model_shape:
  assumes "set (lru_cache s) = dom (valid_checker_map s)" "distinct (lru_cache s)"
  shows "set (lru_cache (snd (store_model h s k res))) =
           dom (valid_checker_map (snd (store_model h s k res)))
       \<and> distinct (lru_cache (snd (store_model h s k res)))
       \<and> length (lru_cache (snd (store_model h s k res))) \<le> Suc (length (lru_cache s))"
proof (cases "ModelValidChecker_init h res")
  case (Inl e)
  then show ?thesis using assms by (simp add: store_model_error)
next
  case (Inr c)
  have "length (remove1 k (lru_cache s)) \<le> length (lru_cache s)"
    by (simp add: length_remove1)
  then show ?thesis using assms by (auto simp: store_model_state[OF Inr])
qed

lemma register_model_inv:
  assumes "lru_inv s"
  shows "lru_inv (snd (register_model h s k res))"
proof (cases "int (length (lru_cache s)) \<ge> maxsize s")
  case False
  then have eq: "register_model h s k res = store_model h s k res"
    by (simp add: register_model_def)
  show ?thesis
    using store_model_shape[of s h k res] assms False
    unfolding eq lru_inv_def store_model_maxsize by auto
next
  case True
  show ?thesis
  proof (cases "lru_cache s")
    case Nil
    then show ?thesis using True assms by (simp add: register_model_def evict_def)
  next
    case (Cons d rest)
    let ?s1 = "s\<lparr>lru_cache := rest, valid_checker_map := (valid_checker_map s)(d := None)\<rparr>"
    have eq: "register_model h s k res = store_model h ?s1 k res"
      using True evict_nonempty[OF assms Cons] by (simp add: register_model_def)
    have i1: "lru_inv ?s1"
      using evict_inv[OF assms] evict_nonempty[OF assms Cons] by simp
    have "int (length rest) < maxsize s"
      using assms Cons unfolding lru_inv_def by simp
    then show ?thesis
      using store_model_shape[of ?s1 h k res] i1
      unfolding eq lru_inv_def store_model_maxsize by auto
  qed
qed

lemma get_result_inv:
  assumes "lru_inv s"
  shows "lru_inv (snd (get_result s k))"
proof (cases "k \<in> set (lru_cache s)")
  case False
  then show ?thesis using assms by (simp add: get_result_def)
next
  case True
  then have "length (remove1 k (lru_cache s)) + 1 = length (lru_cache s)"
    by (simp add: length_remove1) (metis Suc_pred length_pos_if_in_set)
  then show ?thesis using assms True unfolding lru_inv_def
    by (auto simp: get_result_def Let_def split: option.splits)
qed

lemma cached_state: "snd (cached h s k) = s"
  by (simp add: cached_def split: option.splits)

lemma exec_inv: "lru_inv s \<Longrightarrow> lru_inv (exec h s c)"
  by (cases c) (simp_all add: cached_state register_model_inv get_result_inv)

lemma run_inv: "lru_inv s \<Longrightarrow> lru_inv (run s cs)"
  by (induction cs arbitrary: s) (auto simp: exec_inv)

lemma init_inv: "0 \<le> c \<Longrightarrow> lru_inv (ModelCache_init c)"
  by (simp add: lru_inv_def ModelCache_init_def)

lemma new_inv: "lru_inv ModelCache_new"
  by (simp add: ModelCache_new_def CACHE_MAXSIZE_def init_inv)

lemma inv_card: "lru_inv s \<Longrightarrow> card (dom (valid_checker_map s)) = length (lru_cache s)"
  unfolding lru_inv_def by (metis distinct_card)

subsection \<open>No call assigns to \<open>maxsize\<close>\<close>

lemma evict_maxsize: "maxsize (snd (evict s)) = maxsize s"
  by (simp add: evict_def Let_def split: list.splits)

lemma register_model_maxsize: "maxsize (snd (register_model h s k res)) = maxsize s"
proof (cases "evict s")
  case (Pair r s1)
  then have "maxsize s1 = maxsize s" using evict_maxsize[of s] by simp
  then show ?thesis using Pair
    by (cases r) (simp_all add: register_model_def store_model_maxsize)
qed

lemma get_result_maxsize: "maxsize (snd (get_result s k)) = maxsize s"
  by (simp add: get_result_def Let_def split: option.splits)

lemma exec_maxsize: "maxsize (exec h s c) = maxsize s"
  by (cases c) (simp_all add: cached_state register_model_maxsize get_result_maxsize)

lemma run_maxsize: "maxsize (run s cs) = maxsize s"
  by (induction cs arbitrary: s) (auto simp: exec_maxsize)

subsection \<open>What a call of \<open>register_model\<close> that returns leaves behind\<close>

lemma module_of_returns: "h res \<noteq> Tuple [] \<Longrightarrow> \<exists>m. module_of h res = Inr m"
  by (cases "h res") (simp_all add: module_of_def split: list.splits)

lemma checker_init_ok:
  "module_of h res = Inr m \<Longrightarrow>
   ModelValidChecker_init h res =
     Inr \<lparr>result = res, module = m, key_count = get_latest_key_count h m\<rparr>"
  by (simp add: ModelValidChecker_init_def)

lemma register_model_room:
  assumes "int (length (lru_cache s)) < maxsize s" "module_of h res = Inr m"
  shows "fst (register_model h s k res) = Inr ()"
    and "lru_cache (snd (register_model h s k res)) = remove1 k (lru_cache s) @ [k]"
    and "valid_checker_map (snd (register_model h s k res)) =
           (valid_checker_map s)
             (k \<mapsto> \<lparr>result = res, module = m, key_count = get_latest_key_count h m\<rparr>)"
  using assms
  by (simp_all add: register_model_def store_model_state[OF checker_init_ok])

lemma register_model_full:
  assumes "lru_inv s" "int (length (lru_cache s)) \<ge> maxsize s" "lru_cache s = d # rest"
    "module_of h res = Inr m"
  shows "fst (register_model h s k res) = Inr ()"
    and "lru_cache (snd (register_model h s k res)) = remove1 k rest @ [k]"
    and "valid_checker_map (snd (register_model h s k res)) =
           ((valid_checker_map s)(d := None))
             (k \<mapsto> \<lparr>result = res, module = m, key_count = get_latest_key_count h m\<rparr>)"
  using assms(2) evict_nonempty[OF assms(1,3)]
  by (simp_all add: register_model_def store_model_state[OF checker_init_ok[OF assms(4)]])

lemma register_model_returns:
  assumes "lru_inv s" "1 \<le> maxsize s" "module_of h res = Inr m"
  shows "fst (register_model h s k res) = Inr ()"
    and "valid_checker_map (snd (register_model h s k res)) k =
           Some \<lparr>result = res, module = m, key_count = get_latest_key_count h m\<rparr>"
    and "lru_cache (snd (register_model h s k res)) \<noteq> []"
    and "last (lru_cache (snd (register_model h s k res))) = k"
proof -
  have "fst (register_model h s k res) = Inr () \<and>
      valid_checker_map (snd (register_model h s k res)) k =
        Some \<lparr>result = res, module = m, key_count = get_latest_key_count h m\<rparr> \<and>
      lru_cache (snd (register_model h s k res)) \<noteq> [] \<and>
      last (lru_cache (snd (register_model h s k res))) = k"
  proof (cases "int (length (lru_cache s)) < maxsize s")
    case True
    show ?thesis using register_model_room[OF True assms(3), of k] by simp
  next
    case False
    then have full: "int (length (lru_cache s)) \<ge> maxsize s" by simp
    then obtain d rest where dr: "lru_cache s = d # rest"
      using assms(2) by (cases "lru_cache s") auto
    show ?thesis using register_model_full[OF assms(1) full dr assms(3), of k] by simp
  qed
  then show "fst (register_model h s k res) = Inr ()"
    and "valid_checker_map (snd (register_model h s k res)) k =
           Some \<lparr>result = res, module = m, key_count = get_latest_key_count h m\<rparr>"
    and "lru_cache (snd (register_model h s k res)) \<noteq> []"
    and "last (lru_cache (snd (register_model h s k res))) = k"
    by simp_all
qed

subsection \<open>Registering fresh keys while there is room\<close>

lemma run_inserts_room:
  assumes "distinct (map (\<lambda>(h, k, res). k) xs)"
    and "set (map (\<lambda>(h, k, res). k) xs) \<inter> set (lru_cache s) = {}"
    and "int (length (lru_cache s)) + int (length xs) \<le> maxsize s"
    and "list_all (\<lambda>(h, k, res). h res \<noteq> Tuple []) xs"
  shows "lru_cache (run s (inserts xs)) = lru_cache s @ map (\<lambda>(h, k, res). k) xs"
  using assms
proof (induction xs arbitrary: s)
  case Nil
  then show ?case by (simp add: inserts_def)
next
  case (Cons x xs)
  obtain h k res where x: "x = (h, k, res)" by (cases x)
  from Cons.prems(4) x have "h res \<noteq> Tuple []" by simp
  then obtain m where m: "module_of h res = Inr m"
    using module_of_returns by blast
  let ?s1 = "snd (register_model h s k res)"
  have room: "int (length (lru_cache s)) < maxsize s" using Cons.prems(3) by simp
  have knew: "k \<notin> set (lru_cache s)" using Cons.prems(2) x by auto
  have l1: "lru_cache ?s1 = lru_cache s @ [k]"
    using register_model_room(2)[OF room m, of k] knew by (simp add: remove1_idem)
  have "lru_cache (run ?s1 (inserts xs)) = lru_cache ?s1 @ map (\<lambda>(h, k, res). k) xs"
  proof (rule Cons.IH)
    show "distinct (map (\<lambda>(h, k, res). k) xs)" using Cons.prems(1) by simp
    show "set (map (\<lambda>(h, k, res). k) xs) \<inter> set (lru_cache ?s1) = {}"
      using Cons.prems(1,2) x unfolding l1 by auto
    show "int (length (lru_cache ?s1)) + int (length xs) \<le> maxsize ?s1"
      using Cons.prems(3) unfolding l1 register_model_maxsize by simp
    show "list_all (\<lambda>(h, k, res). h res \<noteq> Tuple []) xs" using Cons.prems(4) by simp
  qed
  then show ?case using x l1 by (simp add: inserts_def)
qed

section \<open>Properties of the store\<close>

text \<open>
  C3. After any finite sequence of \<^verbatim>\<open>cached\<close>, \<^verbatim>\<open>register_model\<close> and \<^verbatim>\<open>get_result\<close>
  calls on a freshly constructed store, whatever the heaps they are made in and whether
  they return or raise, the keys of \<^verbatim>\<open>valid_checker_map\<close> are exactly the elements of
  \<^verbatim>\<open>lru_cache\<close>, the dict and the list have the same length, and that length is at most
  \<^verbatim>\<open>maxsize\<close>, which is still \<^verbatim>\<open>CACHE_MAXSIZE\<close>.
\<close>

theorem store_invariant_after_any_run:
  "set (lru_cache (run ModelCache_new cs)) = dom (valid_checker_map (run ModelCache_new cs)) \<and>
   card (dom (valid_checker_map (run ModelCache_new cs))) = length (lru_cache (run ModelCache_new cs)) \<and>
   int (length (lru_cache (run ModelCache_new cs))) \<le> maxsize (run ModelCache_new cs) \<and>
   maxsize (run ModelCache_new cs) = CACHE_MAXSIZE"
proof -
  have i: "lru_inv (run ModelCache_new cs)" by (rule run_inv[OF new_inv])
  have "maxsize (run ModelCache_new cs) = CACHE_MAXSIZE"
    by (simp add: run_maxsize ModelCache_new_def ModelCache_init_def)
  then show ?thesis using i inv_card[OF i] by (simp add: lru_inv_def)
qed

theorem store_invariant_after_any_run_witness:
  "set (lru_cache (run ModelCache_new
          [(heap0, Insert ''A'' 11), (heap0, Insert ''B'' 14), (heap1, IsCached ''A''),
           (heap1, Retrieve ''A''), (heap1, Retrieve ''C''), (heap1, Insert ''A'' 13)])) = {''A''} \<and>
   length (lru_cache (run ModelCache_new
          [(heap0, Insert ''A'' 11), (heap0, Insert ''B'' 14), (heap1, IsCached ''A''),
           (heap1, Retrieve ''A''), (heap1, Retrieve ''C''), (heap1, Insert ''A'' 13)])) = 1"
  using store_invariant_after_any_run
    [of "[(heap0, Insert ''A'' 11), (heap0, Insert ''B'' 14), (heap1, IsCached ''A''),
          (heap1, Retrieve ''A''), (heap1, Retrieve ''C''), (heap1, Insert ''A'' 13)]"]
  by (simp add: ModelCache_new_def ModelCache_init_def CACHE_MAXSIZE_def register_model_def
      store_model_def ModelValidChecker_init_def module_of_def get_latest_key_count_def
      py_len_def heap0_def heap1_def fcard_finsert_if fcard_fempty Let_def cached_def
      get_result_def)

text \<open>
  C6. \<^verbatim>\<open>cached(key)\<close> returns true exactly when the key is in \<^verbatim>\<open>valid_checker_map\<close> and
  its checker's \<^verbatim>\<open>is_valid()\<close> is true, and it leaves the whole store as it was; an entry that
  is present and invalid is reported as a miss and stays in the dict and in the list.
\<close>

theorem cached_is_a_read_only_probe:
  "cached h s k = ((\<exists>c. valid_checker_map s k = Some c \<and> is_valid h c), s) \<and>
   (valid_checker_map s k = Some c \<and> \<not> is_valid h c \<longrightarrow>
      fst (cached h s k) = False \<and>
      valid_checker_map (snd (cached h s k)) k = Some c \<and>
      lru_cache (snd (cached h s k)) = lru_cache s)"
  by (cases "valid_checker_map s k") (simp_all add: cached_def)

theorem cached_is_a_read_only_probe_witness:
  "valid_checker_map small_store ''A'' = Some \<lparr>result = 11, module = 11, key_count = 2\<rparr> \<and>
   \<not> is_valid heap1 \<lparr>result = 11, module = 11, key_count = 2\<rparr> \<and>
   cached heap1 small_store ''A'' = (False, small_store) \<and>
   cached heap0 small_store ''A'' = (True, small_store) \<and>
   cached heap0 small_store ''C'' = (False, small_store)"
proof -
  have v: "valid_checker_map small_store ''A'' = Some \<lparr>result = 11, module = 11, key_count = 2\<rparr>"
    and n: "valid_checker_map small_store ''C'' = None"
    by (simp_all add: small_store_def inserts_def ModelCache_init_def register_model_def
        store_model_def ModelValidChecker_init_def module_of_def get_latest_key_count_def
        py_len_def heap0_def fcard_finsert_if fcard_fempty Let_def)
  have i1: "\<not> is_valid heap1 \<lparr>result = 11, module = 11, key_count = 2\<rparr>"
    by (simp add: is_valid_def get_latest_key_count_def py_len_def heap1_def
        fcard_finsert_if fcard_fempty)
  have i0: "is_valid heap0 \<lparr>result = 11, module = 11, key_count = 2\<rparr>"
    by (simp add: is_valid_def get_latest_key_count_def py_len_def heap0_def
        fcard_finsert_if fcard_fempty)
  show ?thesis
    using cached_is_a_read_only_probe[of heap1 small_store "''A''" "\<lparr>result = 11, module = 11, key_count = 2\<rparr>"]
      cached_is_a_read_only_probe[of heap0 small_store "''A''" "\<lparr>result = 11, module = 11, key_count = 2\<rparr>"]
      cached_is_a_read_only_probe[of heap0 small_store "''C''" "\<lparr>result = 11, module = 11, key_count = 2\<rparr>"]
      v n i0 i1 by simp
qed

subsection \<open>The two concrete stores\<close>

lemma small_store_fields:
  "lru_cache small_store = [''A'', ''B'']"
  "maxsize small_store = 2"
  "valid_checker_map small_store ''A'' = Some \<lparr>result = 11, module = 11, key_count = 2\<rparr>"
  "valid_checker_map small_store ''B'' = Some \<lparr>result = 12, module = 12, key_count = 1\<rparr>"
  "valid_checker_map small_store ''C'' = None"
  by (simp_all add: small_store_def inserts_def ModelCache_init_def register_model_def
      store_model_def ModelValidChecker_init_def module_of_def get_latest_key_count_def
      py_len_def heap0_def fcard_finsert_if fcard_fempty Let_def)

lemma small_store_inv: "lru_inv small_store"
  unfolding small_store_def by (rule run_inv) (simp add: init_inv)

lemma heap0_modules:
  "module_of heap0 10 = Inr 10" "module_of heap0 11 = Inr 11" "module_of heap0 12 = Inr 12"
  "module_of heap0 13 = Inr 11" "module_of heap0 14 = Inl IndexError"
  "module_of heap0 15 = Inr 15"
  by (simp_all add: module_of_def heap0_def)

lemma heap_counts:
  "get_latest_key_count heap0 10 = - 1" "get_latest_key_count heap0 11 = 2"
  "get_latest_key_count heap0 12 = 1" "get_latest_key_count heap0 15 = 2"
  "get_latest_key_count heap1 10 = - 1" "get_latest_key_count heap1 11 = 1"
  by (simp_all add: get_latest_key_count_def py_len_def heap0_def heap1_def
      fcard_finsert_if fcard_fempty)

subsection \<open>\<open>get_result\<close>\<close>

lemma get_result_present:
  assumes "lru_inv s" "valid_checker_map s k = Some c"
  shows "get_result s k = (Inr (result c), s\<lparr>lru_cache := remove1 k (lru_cache s) @ [k]\<rparr>)"
proof -
  from assms have "k \<in> set (lru_cache s)" unfolding lru_inv_def by auto
  then show ?thesis using assms(2) by (simp add: get_result_def checker_get_result_def)
qed

lemma get_result_absent:
  assumes "lru_inv s" "valid_checker_map s k = None"
  shows "get_result s k = (Inl ValueError, s)"
proof -
  from assms have "k \<notin> set (lru_cache s)" unfolding lru_inv_def by auto
  then show ?thesis by (simp add: get_result_def)
qed

text \<open>
  C7. On a store that satisfies the invariant, \<^verbatim>\<open>get_result(key)\<close> with the key present
  moves the key to the end of \<^verbatim>\<open>lru_cache\<close>, changes nothing else, and returns the
  reference that the checker holds, which is the very reference \<^verbatim>\<open>register_model\<close> was
  given; with the key absent it raises (ValueError, from \<^verbatim>\<open>list.remove\<close>) and the store
  is as it was.
\<close>

theorem get_result_promotes_and_returns_the_payload:
  assumes "lru_inv s"
  shows "(valid_checker_map s k = Some c \<longrightarrow>
            get_result s k = (Inr (result c), s\<lparr>lru_cache := remove1 k (lru_cache s) @ [k]\<rparr>)) \<and>
         (1 \<le> maxsize s \<and> module_of h res = Inr m \<longrightarrow>
            fst (register_model h s k res) = Inr () \<and>
            fst (get_result (snd (register_model h s k res)) k) = Inr res) \<and>
         (valid_checker_map s k = None \<longrightarrow> get_result s k = (Inl ValueError, s))"
proof -
  have "fst (get_result (snd (register_model h s k res)) k) = Inr res"
    if "1 \<le> maxsize s" "module_of h res = Inr m"
    using get_result_present[OF register_model_inv[OF assms] register_model_returns(2)[OF assms that]]
    by simp
  then show ?thesis
    using get_result_present[OF assms] get_result_absent[OF assms]
      register_model_returns(1)[OF assms] by blast
qed

theorem get_result_promotes_and_returns_the_payload_witness:
  "lru_inv small_store \<and>
   get_result small_store ''A'' = (Inr 11, small_store\<lparr>lru_cache := [''B'', ''A'']\<rparr>) \<and>
   fst (get_result (snd (register_model heap0 small_store ''A'' 13)) ''A'') = Inr 13 \<and>
   get_result small_store ''C'' = (Inl ValueError, small_store)"
  using get_result_promotes_and_returns_the_payload[OF small_store_inv,
      of "''A''" "\<lparr>result = 11, module = 11, key_count = 2\<rparr>" heap0 13 11]
    get_result_promotes_and_returns_the_payload[OF small_store_inv,
      of "''C''" "\<lparr>result = 11, module = 11, key_count = 2\<rparr>" heap0 13 11]
  by (simp add: small_store_fields small_store_inv heap0_modules)

text \<open>
  C10. \<^verbatim>\<open>get_result\<close> checks no validity: it does not read the heap at all, and for a key
  whose checker \<^verbatim>\<open>is_valid()\<close> would reject (so that \<^verbatim>\<open>cached\<close> answers false) it still
  returns the stored payload and moves the key to the most-recently-used end.
\<close>

theorem get_result_checks_no_validity:
  assumes "lru_inv s" "valid_checker_map s k = Some c" "\<not> is_valid h c"
  shows "fst (cached h s k) = False \<and>
         fst (get_result s k) = Inr (result c) \<and>
         lru_cache (snd (get_result s k)) = remove1 k (lru_cache s) @ [k] \<and>
         last (lru_cache (snd (get_result s k))) = k \<and>
         valid_checker_map (snd (get_result s k)) = valid_checker_map s"
  using assms(2,3) get_result_present[OF assms(1,2)] by (simp add: cached_def)

theorem get_result_checks_no_validity_witness:
  "lru_inv small_store \<and>
   valid_checker_map small_store ''A'' = Some \<lparr>result = 11, module = 11, key_count = 2\<rparr> \<and>
   \<not> is_valid heap1 \<lparr>result = 11, module = 11, key_count = 2\<rparr> \<and>
   fst (cached heap1 small_store ''A'') = False \<and>
   fst (get_result small_store ''A'') = Inr 11 \<and>
   lru_cache (snd (get_result small_store ''A'')) = [''B'', ''A'']"
proof -
  have n: "\<not> is_valid heap1 \<lparr>result = 11, module = 11, key_count = 2\<rparr>"
    by (simp add: is_valid_def heap_counts)
  show ?thesis
    using get_result_checks_no_validity[OF small_store_inv small_store_fields(3) n] n
    by (simp add: small_store_fields small_store_inv)
qed

subsection \<open>Validity\<close>

text \<open>
  The object a checker watches is read off the heap: the first element of a tuple result,
  and the result itself when it is not a tuple.
\<close>

lemma module_of_tuple: "h res = Tuple (m # rest) \<Longrightarrow> module_of h res = Inr m"
  by (simp add: module_of_def)

lemma module_of_other: "\<forall>ms. h res \<noteq> Tuple ms \<Longrightarrow> module_of h res = Inr res"
  by (cases "h res") (simp_all add: module_of_def)

text \<open>
  C5. The resource \<open>m\<close> of a result is the first element of the result when the result is a
  tuple, and the result itself otherwise. A checker stored by \<^verbatim>\<open>register_model\<close> keeps the
  reference to that resource and the count derived from it then; \<^verbatim>\<open>is_valid()\<close>, and with
  it \<^verbatim>\<open>cached\<close>, is true exactly when the count derived from that same reference in the
  current heap equals the stored one. The count of a module is the number of names of its
  state dict, the count of a dict its number of keys. So for a resource that is a dict,
  \<^verbatim>\<open>cached\<close> is true right after the registration, and false in every later heap where
  that dict has fewer keys, with no call in between.
\<close>

theorem validity_follows_the_live_resource:
  assumes "lru_inv s" "1 \<le> maxsize s"
    and "(\<exists>rest. h res = Tuple (m # rest)) \<or> ((\<forall>ms. h res \<noteq> Tuple ms) \<and> m = res)"
  shows "fst (register_model h s k res) = Inr () \<and>
         (\<exists>c. valid_checker_map (snd (register_model h s k res)) k = Some c \<and>
              result c = res \<and> module c = m \<and> key_count c = get_latest_key_count h m \<and>
              (\<forall>h'. is_valid h' c = (get_latest_key_count h' (module c) = key_count c))) \<and>
         (\<forall>h'. fst (cached h' (snd (register_model h s k res)) k) =
                 (get_latest_key_count h' m = get_latest_key_count h m)) \<and>
         (\<forall>h' sd. h' m = Module sd \<longrightarrow> get_latest_key_count h' m = int (fcard (fmdom sd))) \<and>
         (\<forall>h' d. h' m = Dict d \<longrightarrow> get_latest_key_count h' m = int (fcard (fmdom d))) \<and>
         (\<forall>d. h m = Dict d \<longrightarrow>
            fst (cached h (snd (register_model h s k res)) k) \<and>
            (\<forall>h' d'. h' m = Dict d' \<and> fcard (fmdom d') < fcard (fmdom d) \<longrightarrow>
               \<not> fst (cached h' (snd (register_model h s k res)) k)))"
proof -
  let ?c = "\<lparr>result = res, module = m, key_count = get_latest_key_count h m\<rparr>"
  let ?s' = "snd (register_model h s k res)"
  have mo: "module_of h res = Inr m"
    using assms(3) module_of_tuple[of h res m] module_of_other[of h res] by auto
  have c: "valid_checker_map ?s' k = Some ?c"
    by (rule register_model_returns(2)[OF assms(1,2) mo])
  have v: "is_valid h' ?c = (get_latest_key_count h' m = get_latest_key_count h m)" for h'
    by (auto simp: is_valid_def)
  have p: "fst (cached h' ?s' k) = (get_latest_key_count h' m = get_latest_key_count h m)" for h'
    using c v[of h'] by (simp add: cached_def)
  have cm: "get_latest_key_count h' m = int (fcard (fmdom sd))" if "h' m = Module sd" for h' sd
    using that by (simp add: get_latest_key_count_def py_len_def)
  have cd: "get_latest_key_count h' m = int (fcard (fmdom d))" if "h' m = Dict d" for h' d
    using that by (simp add: get_latest_key_count_def py_len_def)
  have shrink: "\<not> fst (cached h' ?s' k)"
    if "h m = Dict d" "h' m = Dict d'" "fcard (fmdom d') < fcard (fmdom d)" for h' d d'
    using that p[of h'] cd[of h d] cd[of h' d'] by simp
  have e: "\<exists>c. valid_checker_map ?s' k = Some c \<and> result c = res \<and> module c = m \<and>
      key_count c = get_latest_key_count h m \<and>
      (\<forall>h'. is_valid h' c = (get_latest_key_count h' (module c) = key_count c))"
    using c v by (intro exI[of _ ?c]) auto
  show ?thesis
    using register_model_returns(1)[OF assms(1,2) mo] e p cm cd shrink by blast
qed

text \<open>
  Two registrations into the program's fresh store. The tuple at 13 is watched through its
  first element, the dict at 11: the entry is valid at once and invalid once that dict has
  lost a key. The dict at 12 is its own resource: the entry is valid at once, still valid
  when only the dict at 11 has changed, and invalid once the dict at 12 itself is empty.
\<close>

theorem validity_follows_the_live_resource_witness:
  "lru_inv (ModelCache_new :: string ModelCache) \<and>
   1 \<le> maxsize (ModelCache_new :: string ModelCache) \<and>
   heap0 13 = Tuple [11, 10] \<and>
   heap0 12 = Dict (fmap_of_list [(''x'', 20)]) \<and>
   fst (register_model heap0 ModelCache_new ''A'' 13) = Inr () \<and>
   fst (cached heap0 (snd (register_model heap0 ModelCache_new ''A'' 13)) ''A'') \<and>
   \<not> fst (cached heap1 (snd (register_model heap0 ModelCache_new ''A'' 13)) ''A'') \<and>
   fst (register_model heap0 ModelCache_new ''B'' 12) = Inr () \<and>
   fst (cached heap0 (snd (register_model heap0 ModelCache_new ''B'' 12)) ''B'') \<and>
   fst (cached heap1 (snd (register_model heap0 ModelCache_new ''B'' 12)) ''B'') \<and>
   \<not> fst (cached (heap0(12 := Dict fmempty))
           (snd (register_model heap0 ModelCache_new ''B'' 12)) ''B'')"
proof -
  have mx: "1 \<le> maxsize (ModelCache_new :: string ModelCache)"
    by (simp add: ModelCache_new_def ModelCache_init_def CACHE_MAXSIZE_def)
  have t: "heap0 13 = Tuple [11, 10]" and d: "heap0 12 = Dict (fmap_of_list [(''x'', 20)])"
    by (simp_all add: heap0_def)
  have ht: "(\<exists>rest. heap0 13 = Tuple (11 # rest)) \<or> ((\<forall>ms. heap0 13 \<noteq> Tuple ms) \<and> 11 = (13::addr))"
    using t by simp
  have hd: "(\<exists>rest. heap0 12 = Tuple (12 # rest)) \<or> ((\<forall>ms. heap0 12 \<noteq> Tuple ms) \<and> 12 = (12::addr))"
    using d by simp
  have e: "get_latest_key_count (heap0(12 := Dict fmempty)) 12 = 0"
    "get_latest_key_count heap1 12 = 1"
    by (simp_all add: get_latest_key_count_def py_len_def heap0_def heap1_def
        fcard_finsert_if fcard_fempty)
  show ?thesis
    using validity_follows_the_live_resource
        [where s = ModelCache_new and h = heap0 and res = 13 and m = 11 and k = "''A''",
         OF new_inv mx ht]
      validity_follows_the_live_resource
        [where s = ModelCache_new and h = heap0 and res = 12 and m = 12 and k = "''B''",
         OF new_inv mx hd]
    by (simp add: new_inv mx t d e heap_counts)
qed

subsection \<open>The full store\<close>

lemma run_upto_keys:
  assumes "int n \<le> CACHE_MAXSIZE"
  shows "lru_cache (run ModelCache_new (inserts (map (\<lambda>i. (heap0, i, 12)) [0..<n]))) = [0..<n]"
proof -
  let ?xs = "map (\<lambda>i. (heap0, i, 12 :: addr)) [0..<n]"
  have keys: "map (\<lambda>(h, k, res). k) ?xs = [0..<n]" by (simp add: comp_def)
  have ok: "list_all (\<lambda>(h, k, res). h res \<noteq> Tuple []) ?xs"
    by (simp add: list_all_iff heap0_def)
  have "lru_cache (run (ModelCache_new :: nat ModelCache) (inserts ?xs)) =
      lru_cache (ModelCache_new :: nat ModelCache) @ map (\<lambda>(h, k, res). k) ?xs"
  proof (rule run_inserts_room)
    show "distinct (map (\<lambda>(h, k, res). k) ?xs)" unfolding keys by simp
    show "set (map (\<lambda>(h, k, res). k) ?xs) \<inter> set (lru_cache (ModelCache_new :: nat ModelCache)) = {}"
      by (simp add: ModelCache_new_def ModelCache_init_def)
    show "int (length (lru_cache (ModelCache_new :: nat ModelCache))) + int (length ?xs)
        \<le> maxsize (ModelCache_new :: nat ModelCache)"
      using assms by (simp add: ModelCache_new_def ModelCache_init_def)
    show "list_all (\<lambda>(h, k, res). h res \<noteq> Tuple []) ?xs" by (rule ok)
  qed
  then show ?thesis unfolding keys by (simp add: ModelCache_new_def ModelCache_init_def)
qed

lemma full_store_fields:
  "lru_cache full_store = 0 # [1..<100]"
  "maxsize full_store = 100"
  "lru_inv full_store"
proof -
  have "lru_cache full_store = [0..<100]"
    unfolding full_store_def by (rule run_upto_keys) (simp add: CACHE_MAXSIZE_def)
  then show "lru_cache full_store = 0 # [1..<100]" by (simp add: upt_conv_Cons)
  show "maxsize full_store = 100"
    by (simp add: full_store_def run_maxsize ModelCache_new_def ModelCache_init_def
        CACHE_MAXSIZE_def)
  show "lru_inv full_store" unfolding full_store_def by (rule run_inv[OF new_inv])
qed

subsection \<open>Where the code departs from its specification\<close>

text \<open>
  The sentinel of \<^verbatim>\<open>get_latest_key_count\<close> is \<open>- 1\<close> exactly for an object that is neither
  a module nor a dict: no count of a module or of a dict is negative.
\<close>

lemma sentinel_iff_unsupported:
  "(get_latest_key_count h m = - 1) = ((\<forall>d. h m \<noteq> Module d) \<and> (\<forall>d. h m \<noteq> Dict d))"
  by (cases "h m") (simp_all add: get_latest_key_count_def py_len_def)

text \<open>
  C1, on the code. The program's fresh store registers under the key \<^verbatim>\<open>A\<close> a result that is
  an int (the object at 10). The call returns, the stored count is the sentinel \<open>- 1\<close>, and
  \<^verbatim>\<open>cached(A)\<close> answers true: \<^verbatim>\<open>is_valid\<close> compares the stored sentinel with the sentinel
  that \<^verbatim>\<open>get_latest_key_count\<close> returns again, and they are equal. The source's comment at
  the sentinel says the result is never cached.
\<close>

theorem unsupported_result_is_reported_cached:
  "heap0 10 = Other \<and>
   fst (register_model heap0 (ModelCache_new :: string ModelCache) ''A'' 10) = Inr () \<and>
   valid_checker_map (snd (register_model heap0 (ModelCache_new :: string ModelCache) ''A'' 10)) ''A''
     = Some \<lparr>result = 10, module = 10, key_count = - 1\<rparr> \<and>
   is_valid heap0 \<lparr>result = 10, module = 10, key_count = - 1\<rparr> \<and>
   fst (cached heap0 (snd (register_model heap0 (ModelCache_new :: string ModelCache) ''A'' 10)) ''A'')
     = True"
proof -
  have m: "1 \<le> maxsize (ModelCache_new :: string ModelCache)"
    by (simp add: ModelCache_new_def ModelCache_init_def CACHE_MAXSIZE_def)
  note r = register_model_returns[OF new_inv m heap0_modules(1), of "''A''"]
  have v: "is_valid heap0 \<lparr>result = 10, module = 10, key_count = - 1\<rparr>"
    by (simp add: is_valid_def heap_counts)
  have "heap0 10 = Other" by (simp add: heap0_def)
  then show ?thesis using r(1,2) v by (simp add: cached_def heap_counts)
qed

text \<open>
  C2, on the code. The program's store is full with the keys 0 to 99 (0 the least recently
  used) and \<^verbatim>\<open>register_model\<close> is called for the key 5, which is present. The call returns,
  key 0 is gone from the dict, and 99 keys are left: the eviction test looks at the length of
  the list alone, not at whether the key is already there.
\<close>

theorem overwrite_of_a_full_store_evicts:
  "int (length (lru_cache full_store)) = maxsize full_store \<and>
   maxsize full_store = CACHE_MAXSIZE \<and>
   valid_checker_map full_store 0 \<noteq> None \<and>
   valid_checker_map full_store 5 \<noteq> None \<and>
   fst (register_model heap0 full_store 5 11) = Inr () \<and>
   valid_checker_map (snd (register_model heap0 full_store 5 11)) 0 = None \<and>
   length (lru_cache (snd (register_model heap0 full_store 5 11))) = 99"
proof -
  have len: "int (length (lru_cache full_store)) = maxsize full_store"
    by (simp add: full_store_fields)
  have full: "maxsize full_store \<le> int (length (lru_cache full_store))"
    using len by simp
  note r = register_model_full[OF full_store_fields(3) full full_store_fields(1)
      heap0_modules(2), of 5]
  have dom: "dom (valid_checker_map full_store) = set (0 # [1..<100])"
    using full_store_fields(3) unfolding lru_inv_def full_store_fields(1) by simp
  have "0 \<in> dom (valid_checker_map full_store)" "5 \<in> dom (valid_checker_map full_store)"
    unfolding dom by simp_all
  then have present: "valid_checker_map full_store 0 \<noteq> None"
    "valid_checker_map full_store 5 \<noteq> None"
    by auto
  have "(5::nat) \<in> set [1..<100]" by simp
  then have "length (remove1 5 [1..<100] @ [5::nat]) = 99"
    by (simp add: length_remove1 del: upt_rec_numeral)
  then show ?thesis
    using len present r by (simp add: full_store_fields(2) CACHE_MAXSIZE_def del: upt_rec_numeral)
qed

subsection \<open>Construction\<close>



subsection \<open>Eviction order\<close>

lemma run_append: "run s (as @ bs) = run (run s as) bs"
  by (induction as arbitrary: s) auto

lemma inserts_snoc: "run s (inserts (xs @ [(h, k, res)])) = snd (register_model h (run s (inserts xs)) k res)"
  by (simp add: inserts_def run_append)

lemma hd_remove1:
  assumes "distinct xs" "2 \<le> length xs" "k \<in> set xs"
  shows "remove1 k xs \<noteq> []"
    and "hd (remove1 k xs) = (if hd xs = k then xs ! 1 else hd xs)"
    and "hd (remove1 k xs) \<noteq> k"
proof -
  obtain a b ys where xs: "xs = a # b # ys"
    using assms(2) by (cases xs; cases "tl xs") auto
  show "remove1 k xs \<noteq> []" using xs by auto
  show "hd (remove1 k xs) = (if hd xs = k then xs ! 1 else hd xs)" using xs by auto
  show "hd (remove1 k xs) \<noteq> k" using xs assms(1) by auto
qed

text \<open>
  C8. On a full store of capacity at least two (the program's is 100) that satisfies the
  invariant, \<^verbatim>\<open>get_result(k)\<close> for a present key, alone or after a \<^verbatim>\<open>cached(k)\<close>, puts
  \<^verbatim>\<open>k\<close> at the end of \<^verbatim>\<open>lru_cache\<close>; the front of the list is then the oldest of the
  other keys. A following \<^verbatim>\<open>register_model\<close> of an absent key returns, removes exactly that
  front key and adds the new one: \<^verbatim>\<open>k\<close> stays, with the checker it had.
\<close>

theorem retrieved_key_survives_the_next_eviction:
  assumes "lru_inv s" "int (length (lru_cache s)) = maxsize s" "2 \<le> maxsize s"
    and "k \<in> set (lru_cache s)" "k' \<notin> set (lru_cache s)" "module_of h res = Inr m"
  shows "get_result (snd (cached h0 s k)) k = get_result s k \<and>
         (\<exists>c. valid_checker_map s k = Some c \<and> fst (get_result s k) = Inr (result c)) \<and>
         lru_cache (snd (get_result s k)) = remove1 k (lru_cache s) @ [k] \<and>
         hd (lru_cache (snd (get_result s k))) =
           (if hd (lru_cache s) = k then lru_cache s ! 1 else hd (lru_cache s)) \<and>
         hd (lru_cache (snd (get_result s k))) \<noteq> k \<and>
         fst (register_model h (snd (get_result s k)) k' res) = Inr () \<and>
         lru_cache (snd (register_model h (snd (get_result s k)) k' res)) =
           tl (remove1 k (lru_cache s)) @ [k, k'] \<and>
         dom (valid_checker_map (snd (register_model h (snd (get_result s k)) k' res))) =
           dom (valid_checker_map s) - {hd (lru_cache (snd (get_result s k)))} \<union> {k'} \<and>
         valid_checker_map (snd (register_model h (snd (get_result s k)) k' res)) k =
           valid_checker_map s k"
proof -
  let ?L = "lru_cache s"
  let ?s1 = "snd (get_result s k)"
  let ?s2 = "snd (register_model h ?s1 k' res)"
  have dist: "distinct ?L" and dom: "set ?L = dom (valid_checker_map s)"
    using assms(1) unfolding lru_inv_def by simp_all
  have len: "2 \<le> length ?L" using assms(2,3) by simp
  obtain c where c: "valid_checker_map s k = Some c" using assms(4) dom by auto
  note g = get_result_present[OF assms(1) c]
  have l1: "lru_cache ?s1 = remove1 k ?L @ [k]" and m1: "valid_checker_map ?s1 = valid_checker_map s"
    using g by simp_all
  note h = hd_remove1[OF dist len assms(4)]
  obtain d rest where dr: "remove1 k ?L = d # rest" using h(1) by (cases "remove1 k ?L") auto
  have hd1: "hd (lru_cache ?s1) = d" using l1 dr by simp
  have dk: "d \<noteq> k" using h(3) dr by simp
  have dL: "d \<in> set ?L" using dr by (metis list.set_intros(1) notin_set_remove1)
  have kk': "k \<noteq> k'" using assms(4,5) by auto
  have inv1: "lru_inv ?s1" by (rule get_result_inv[OF assms(1)])
  have "length (lru_cache ?s1) = length ?L"
    unfolding l1 using assms(4) len by (simp add: length_remove1)
  then have full: "maxsize ?s1 \<le> int (length (lru_cache ?s1))"
    using assms(2) by (simp add: get_result_maxsize)
  have l1': "lru_cache ?s1 = d # (rest @ [k])" using l1 dr by simp
  note r = register_model_full[OF inv1 full l1' assms(6), of k']
  have "set rest \<subseteq> set ?L" using dr set_remove1_subset[of k ?L] by auto
  then have k'rest: "k' \<notin> set (rest @ [k])" using assms(5) kk' by auto
  have l2: "lru_cache ?s2 = rest @ [k, k']"
    using r(2) k'rest by (simp add: remove1_idem)
  have d2: "dom (valid_checker_map ?s2) = dom (valid_checker_map s) - {d} \<union> {k'}"
    unfolding r(3) m1 by auto
  have v2: "valid_checker_map ?s2 k = valid_checker_map s k"
    unfolding r(3) m1 using dk kk' by simp
  have "get_result (snd (cached h0 s k)) k = get_result s k" by (simp add: cached_state)
  moreover have "\<exists>c. valid_checker_map s k = Some c \<and> fst (get_result s k) = Inr (result c)"
    using c g by simp
  moreover have "hd (lru_cache ?s1) = (if hd ?L = k then ?L ! 1 else hd ?L)"
    using h(2) l1 dr by simp
  moreover have "hd (lru_cache ?s1) \<noteq> k" using hd1 dk by simp
  moreover have "lru_cache ?s2 = tl (remove1 k ?L) @ [k, k']" using l2 dr by simp
  ultimately show ?thesis using l1 r(1) d2 v2 hd1 by simp
qed

theorem retrieved_key_survives_the_next_eviction_witness:
  "lru_inv small_store \<and> int (length (lru_cache small_store)) = maxsize small_store \<and>
   2 \<le> maxsize small_store \<and> ''A'' \<in> set (lru_cache small_store) \<and>
   ''C'' \<notin> set (lru_cache small_store) \<and> module_of heap0 12 = Inr 12 \<and>
   lru_cache (snd (get_result small_store ''A'')) = [''B'', ''A''] \<and>
   lru_cache (snd (register_model heap0 (snd (get_result small_store ''A'')) ''C'' 12)) =
     [''A'', ''C''] \<and>
   dom (valid_checker_map (snd (register_model heap0 (snd (get_result small_store ''A'')) ''C'' 12)))
     = dom (valid_checker_map small_store) - {''B''} \<union> {''C''}"
proof -
  have a: "int (length (lru_cache small_store)) = maxsize small_store"
    and b: "2 \<le> maxsize small_store"
    and c: "''A'' \<in> set (lru_cache small_store)"
    and d: "''C'' \<notin> set (lru_cache small_store)"
    by (simp_all add: small_store_fields)
  show ?thesis
    using retrieved_key_survives_the_next_eviction[OF small_store_inv a b c d heap0_modules(3)]
      a b c d
    by (simp add: small_store_fields small_store_inv heap0_modules)
qed

text \<open>
  C4. Into a freshly constructed store of capacity at least one, \<^verbatim>\<open>register_model\<close> is
  called for capacity + 1 distinct keys, in any heaps, with results that have a resource
  (none is the empty tuple), and nothing else is called. Every call returns; after every
  call the dict and the list hold at most capacity entries; before the last call all the
  earlier keys are present, and the last call removes the first key registered and no
  other.
\<close>

theorem one_key_too_many_evicts_the_first:
  assumes "1 \<le> cap" "int (length xs) = cap + 1"
    and "distinct (map (\<lambda>(h, k, res). k) xs)"
    and "list_all (\<lambda>(h, k, res). h res \<noteq> Tuple []) xs"
  shows "(\<forall>n \<le> length xs.
            int (card (dom (valid_checker_map (run (ModelCache_init cap) (inserts (take n xs))))))
              \<le> cap \<and>
            int (length (lru_cache (run (ModelCache_init cap) (inserts (take n xs))))) \<le> cap) \<and>
         (\<forall>n < length xs.
            (case xs ! n of (h, k, res) \<Rightarrow>
               fst (register_model h (run (ModelCache_init cap) (inserts (take n xs))) k res))
            = Inr ()) \<and>
         lru_cache (run (ModelCache_init cap) (inserts (butlast xs))) =
           map (\<lambda>(h, k, res). k) (butlast xs) \<and>
         dom (valid_checker_map (run (ModelCache_init cap) (inserts (butlast xs)))) =
           set (map (\<lambda>(h, k, res). k) (butlast xs)) \<and>
         lru_cache (run (ModelCache_init cap) (inserts xs)) = map (\<lambda>(h, k, res). k) (tl xs) \<and>
         dom (valid_checker_map (run (ModelCache_init cap) (inserts xs))) =
           set (map (\<lambda>(h, k, res). k) (butlast xs))
             - {(\<lambda>(h, k, res). k) (hd xs)} \<union> {(\<lambda>(h, k, res). k) (last xs)}"
proof -
  let ?key = "\<lambda>(h :: heap, k :: 'a, res :: addr). k"
  let ?s0 = "ModelCache_init cap :: 'a ModelCache"
  have inv0: "lru_inv ?s0" using assms(1) by (simp add: init_inv)
  have inv: "lru_inv (run ?s0 cs)" for cs by (rule run_inv[OF inv0])
  have mx: "maxsize (run ?s0 cs) = cap" for cs by (simp add: run_maxsize ModelCache_init_def)
  have bound: "int (card (dom (valid_checker_map (run ?s0 cs)))) \<le> cap \<and>
      int (length (lru_cache (run ?s0 cs))) \<le> cap" for cs
    using inv[of cs] inv_card[OF inv[of cs]] mx[of cs] by (simp add: lru_inv_def)
  have returns: "(case xs ! n of (h, k, res) \<Rightarrow>
      fst (register_model h (run ?s0 (inserts (take n xs))) k res)) = Inr ()"
    if "n < length xs" for n
  proof -
    obtain h k res where x: "xs ! n = (h, k, res)" by (cases "xs ! n")
    have "(h, k, res) \<in> set xs" using that x by (metis nth_mem)
    then have "h res \<noteq> Tuple []" using assms(4) by (auto simp: list_all_iff)
    then obtain m where "module_of h res = Inr m" using module_of_returns by blast
    then show ?thesis
      using register_model_returns(1)[OF inv, of _ h res m k] mx assms(1) x by simp
  qed
  obtain x0 mid xl where xs: "xs = x0 # mid @ [xl]"
  proof -
    have two: "2 \<le> length xs" using assms(1,2) by simp
    then obtain x0 ys where a: "xs = x0 # ys" by (cases xs) auto
    then have "ys \<noteq> []" using two by auto
    then obtain mid xl where "ys = mid @ [xl]" by (metis rev_exhaust)
    then show ?thesis using a that by simp
  qed
  obtain h0 k0 r0 where x0: "x0 = (h0, k0, r0)" by (cases x0)
  obtain hl kl rl where xl: "xl = (hl, kl, rl)" by (cases xl)
  let ?b = "run ?s0 (inserts (x0 # mid))"
  have lb: "lru_cache ?b = lru_cache ?s0 @ map ?key (x0 # mid)"
  proof (rule run_inserts_room)
    show "distinct (map ?key (x0 # mid))" using assms(3) xs by simp
    show "set (map ?key (x0 # mid)) \<inter> set (lru_cache ?s0) = {}"
      by (simp add: ModelCache_init_def)
    show "int (length (lru_cache ?s0)) + int (length (x0 # mid)) \<le> maxsize ?s0"
      using assms(2) xs by (simp add: ModelCache_init_def)
    show "list_all (\<lambda>(h, k, res). h res \<noteq> Tuple []) (x0 # mid)" using assms(4) xs by simp
  qed
  then have lb': "lru_cache ?b = k0 # map ?key mid" using x0 by (simp add: ModelCache_init_def)
  have domb: "dom (valid_checker_map ?b) = set (k0 # map ?key mid)"
    using inv[of "inserts (x0 # mid)"] lb' by (simp add: lru_inv_def)
  have full: "maxsize ?b \<le> int (length (lru_cache ?b))"
    using assms(2) xs lb' mx[of "inserts (x0 # mid)"] by simp
  have "hl rl \<noteq> Tuple []" using assms(4) xs xl by simp
  then obtain ml where ml: "module_of hl rl = Inr ml" using module_of_returns by blast
  note r = register_model_full[OF inv full lb' ml, of kl]
  have fin: "run ?s0 (inserts xs) = snd (register_model hl ?b kl rl)"
    using inserts_snoc[of ?s0 "x0 # mid" hl kl rl] xs xl by simp
  have klnew: "kl \<notin> set (map ?key mid)" "kl \<noteq> k0" "k0 \<notin> set (map ?key mid)"
    using assms(3) xs x0 xl by auto
  have lf: "lru_cache (run ?s0 (inserts xs)) = map ?key (tl xs)"
    unfolding fin r(2) using klnew xs xl by (simp add: remove1_idem)
  have df: "dom (valid_checker_map (run ?s0 (inserts xs))) =
      set (map ?key (butlast xs)) - {?key (hd xs)} \<union> {?key (last xs)}"
  proof -
    have "dom (valid_checker_map (run ?s0 (inserts xs))) = dom (valid_checker_map ?b) - {k0} \<union> {kl}"
      unfolding fin r(3) by auto
    then show ?thesis unfolding domb using xs x0 xl by (simp add: butlast_append)
  qed
  have bl: "butlast xs = x0 # mid" using xs by (simp add: butlast_append)
  show ?thesis
    using bound returns lb' domb lf df unfolding bl using x0 by simp
qed

theorem one_key_too_many_evicts_the_first_witness:
  "(1::int) \<le> 2 \<and>
   int (length [(heap0, ''A'', 11 :: addr), (heap0, ''B'', 12), (heap1, ''C'', 13)]) = 2 + 1 \<and>
   distinct (map (\<lambda>(h, k, res). k) [(heap0, ''A'', 11 :: addr), (heap0, ''B'', 12), (heap1, ''C'', 13)]) \<and>
   list_all (\<lambda>(h, k, res). h res \<noteq> Tuple [])
     [(heap0, ''A'', 11 :: addr), (heap0, ''B'', 12), (heap1, ''C'', 13)] \<and>
   lru_cache (run (ModelCache_init 2)
     (inserts [(heap0, ''A'', 11), (heap0, ''B'', 12), (heap1, ''C'', 13)])) = [''B'', ''C''] \<and>
   dom (valid_checker_map (run (ModelCache_init 2)
     (inserts [(heap0, ''A'', 11), (heap0, ''B'', 12), (heap1, ''C'', 13)]))) = {''B'', ''C''}"
proof -
  have a: "(1::int) \<le> 2" by simp
  have b: "int (length [(heap0, ''A'', 11 :: addr), (heap0, ''B'', 12), (heap1, ''C'', 13)]) = 2 + 1"
    by simp
  have c: "distinct (map (\<lambda>(h, k, res). k)
      [(heap0, ''A'', 11 :: addr), (heap0, ''B'', 12), (heap1, ''C'', 13)])"
    by simp
  have d: "list_all (\<lambda>(h, k, res). h res \<noteq> Tuple [])
      [(heap0, ''A'', 11 :: addr), (heap0, ''B'', 12), (heap1, ''C'', 13)]"
    by (simp add: heap0_def heap1_def)
  show ?thesis
    using one_key_too_many_evicts_the_first[OF a b c d] b c d by auto
qed

end
